theory Spec2Isabelle
  imports Complex_Main
begin

text \<open>
  A model of the script \<^verbatim>\<open>RiskLanguageBiasDetector.py\<close>: the segmenter
  \<open>chunk_text\<close>, the normalizer \<open>normalize_keys\<close>, the relevance gate, the parsing
  stage of \<open>analyze_bias\<close> and the aggregation in the main loop. The language model, the
  PDF reader and the user interface are not part of the model: the text of a model
  response is an argument of the function that consumes it.
\<close>

section \<open>Python strings and slices\<close>

text \<open>
  A string of the program is modelled as a \<^typ>\<open>string\<close> whose characters are the code
  points below 256, one \<^typ>\<open>char\<close> per code point. The functions of this section are the
  string methods the program calls, restricted to that range.
\<close>

definition isspace :: "char \<Rightarrow> bool" where
  \<comment> \<open>The white space of \<open>str.split()\<close>, \<open>str.strip()\<close> and \<open>int()\<close>: tab to carriage
      return, the four separators 28 to 31, blank, next line and no-break space.\<close>
  "isspace c = (let n = (of_char c :: nat) in
     (9 \<le> n \<and> n \<le> 13) \<or> (28 \<le> n \<and> n \<le> 32) \<or> n = 133 \<or> n = 160)"

fun split_from :: "string \<Rightarrow> string \<Rightarrow> string list" where
  \<comment> \<open>\<open>cur\<close> is the word read so far.\<close>
  "split_from cur [] = (if cur = [] then [] else [cur])"
| "split_from cur (c # cs) =
     (if isspace c then (if cur = [] then split_from [] cs else cur # split_from [] cs)
      else split_from (cur @ [c]) cs)"

definition str_split :: "string \<Rightarrow> string list" where
  \<comment> \<open>\<open>text.split()\<close>: the maximal runs of characters that are not white space.\<close>
  "str_split s = split_from [] s"

fun str_join :: "string \<Rightarrow> string list \<Rightarrow> string" where
  \<comment> \<open>\<open>sep.join(ws)\<close>\<close>
  "str_join sep [] = []"
| "str_join sep [w] = w"
| "str_join sep (w # v # ws) = w @ sep @ str_join sep (v # ws)"

definition str_strip :: "string \<Rightarrow> string" where
  \<comment> \<open>\<open>s.strip()\<close>\<close>
  "str_strip s = rev (dropWhile isspace (rev (dropWhile isspace s)))"

definition lower_char :: "char \<Rightarrow> char" where
  "lower_char c = (let n = (of_char c :: nat) in
     if (65 \<le> n \<and> n \<le> 90) \<or> (192 \<le> n \<and> n \<le> 214) \<or> (216 \<le> n \<and> n \<le> 222)
     then char_of (n + 32) else c)"

definition str_lower :: "string \<Rightarrow> string" where
  \<comment> \<open>\<open>s.lower()\<close>\<close>
  "str_lower s = map lower_char s"

definition upper_char :: "char \<Rightarrow> string" where
  \<comment> \<open>The sharp s (223) becomes two letters. The upper-case forms of 181 and 255 are
      code points above 255; the model keeps these two characters as they are.\<close>
  "upper_char c = (let n = (of_char c :: nat) in
     if (97 \<le> n \<and> n \<le> 122) \<or> (224 \<le> n \<and> n \<le> 246) \<or> (248 \<le> n \<and> n \<le> 254)
     then [char_of (n - 32)]
     else if n = 223 then ''SS'' else [c])"

definition str_upper :: "string \<Rightarrow> string" where
  \<comment> \<open>\<open>s.upper()\<close>\<close>
  "str_upper s = concat (map upper_char s)"

fun str_find :: "string \<Rightarrow> char \<Rightarrow> int" where
  \<comment> \<open>\<open>s.find(c)\<close> for a one-character \<open>c\<close>: the first index of \<open>c\<close>, or \<open>-1\<close>.\<close>
  "str_find [] c = - 1"
| "str_find (x # xs) c =
     (if x = c then 0 else (let r = str_find xs c in if r = - 1 then - 1 else r + 1))"

definition str_rfind :: "string \<Rightarrow> char \<Rightarrow> int" where
  \<comment> \<open>\<open>s.rfind(c)\<close>: the last index of \<open>c\<close>, or \<open>-1\<close>.\<close>
  "str_rfind s c =
     (let r = str_find (rev s) c in if r = - 1 then - 1 else int (length s) - 1 - r)"

definition py_slice :: "'a list \<Rightarrow> int \<Rightarrow> int \<Rightarrow> 'a list" where
  \<comment> \<open>\<open>xs[i:j]\<close>: a negative bound counts from the end, and both bounds are clipped to
      the sequence.\<close>
  "py_slice xs i j =
     (let n = int (length xs);
          lo = (if i < 0 then max (i + n) 0 else min i n);
          hi = (if j < 0 then max (j + n) 0 else min j n)
      in take (nat (hi - lo)) (drop (nat lo) xs))"

section \<open>The segmenter\<close>

text \<open>
  \<^verbatim>\<open>
  def chunk_text(text, chunk_size=300, overlap=50):
      words = text.split()
      segments = []
      start = 0
      while start < len(words):
          end = start + chunk_size
          seg = " ".join(words[start:end])
          segments.append(seg)
          start += chunk_size - overlap
      return segments
  \<close>
  The loop has no bound of its own, so it is a partial function: the value \<open>None\<close> is
  the loop that does not return.
\<close>

partial_function (option) chunk_loop ::
  "string list \<Rightarrow> int \<Rightarrow> int \<Rightarrow> int \<Rightarrow> string list \<Rightarrow> string list option" where
  "chunk_loop words chunk_size overlap start segments =
     (if start < int (length words)
      then chunk_loop words chunk_size overlap (start + (chunk_size - overlap))
             (segments @ [str_join '' '' (py_slice words start (start + chunk_size))])
      else Some segments)"

declare chunk_loop.simps [code]

definition chunk_text :: "string \<Rightarrow> int \<Rightarrow> int \<Rightarrow> string list option" where
  "chunk_text text chunk_size overlap = chunk_loop (str_split text) chunk_size overlap 0 []"

definition is_word :: "string \<Rightarrow> bool" where
  "is_word w = (w \<noteq> [] \<and> list_all (\<lambda>c. \<not> isspace c) w)"

fun reconstruct :: "int \<Rightarrow> string list \<Rightarrow> string list" where
  \<comment> \<open>The words of the segments, each segment but the first without its first
      \<open>overlap\<close> words.\<close>
  "reconstruct overlap [] = []"
| "reconstruct overlap (s # rest) =
     str_split s @ concat (map (\<lambda>t. drop (nat overlap) (str_split t)) rest)"

section \<open>JSON values\<close>

text \<open>
  A Python float is a finite value, an infinity or not-a-number; a finite one is carried
  as the rational number it stands for. A decoded JSON object is a Python dictionary: an
  association list in insertion order whose keys are strings.
\<close>

datatype pyfloat = Finite rat | PosInf | NegInf | NaN

datatype json =
    JNull
  | JBool bool
  | JInt int
  | JFloat pyfloat
  | JStr string
  | JArray "json list"
  | JObject "(string \<times> json) list"

type_synonym dict = "(string \<times> json) list"

datatype py_error = AttributeError

fun dict_set :: "dict \<Rightarrow> string \<Rightarrow> json \<Rightarrow> dict" where
  \<comment> \<open>\<open>d[k] = v\<close>: a key that is present keeps its place and takes the new value.\<close>
  "dict_set [] k v = [(k, v)]"
| "dict_set ((k', v') # d) k v = (if k' = k then (k', v) # d else (k', v') # dict_set d k v)"

definition dict_get :: "dict \<Rightarrow> string \<Rightarrow> json \<Rightarrow> json" where
  \<comment> \<open>\<open>d.get(k, dflt)\<close>\<close>
  "dict_get d k dflt = (case map_of d k of None \<Rightarrow> dflt | Some v \<Rightarrow> v)"

definition has_key :: "dict \<Rightarrow> string \<Rightarrow> bool" where
  \<comment> \<open>\<open>k in d\<close>\<close>
  "has_key d k = (map_of d k \<noteq> None)"

definition remove_key :: "string \<Rightarrow> dict \<Rightarrow> dict" where
  \<comment> \<open>The record without the field \<open>k\<close>.\<close>
  "remove_key k d = filter (\<lambda>kv. fst kv \<noteq> k) d"

subsection \<open>A decoder for concrete responses\<close>

text \<open>
  \<open>json.loads\<close> belongs to the Python library, so the analyser below takes the decoder
  as a parameter \<open>loads\<close>, with \<open>None\<close> for a decoding error. To run the analyser on
  concrete responses, \<open>json_loads\<close> decodes the JSON texts that have no number with a
  fraction or an exponent, no \<open>NaN\<close> or \<open>Infinity\<close>, no hexadecimal escape in a string
  and no integer of more than 4300 digits, the way the library does for a text that is
  not nested beyond the interpreter's recursion limit; it answers \<open>None\<close> on every
  other text.
\<close>

definition json_ws :: "char \<Rightarrow> bool" where
  "json_ws c = (c = CHR 0x20 \<or> c = CHR 0x09 \<or> c = CHR 0x0A \<or> c = CHR 0x0D)"

definition skip_ws :: "string \<Rightarrow> string" where
  "skip_ws s = dropWhile json_ws s"

definition unescape :: "char \<Rightarrow> char option" where
  "unescape e =
     (if e = CHR 0x22 then Some (CHR 0x22)
      else if e = CHR 0x5C then Some (CHR 0x5C)
      else if e = CHR ''/'' then Some (CHR ''/'')
      else if e = CHR ''b'' then Some (CHR 0x08)
      else if e = CHR ''f'' then Some (CHR 0x0C)
      else if e = CHR ''n'' then Some (CHR 0x0A)
      else if e = CHR ''r'' then Some (CHR 0x0D)
      else if e = CHR ''t'' then Some (CHR 0x09)
      else None)"

fun scanstring :: "string \<Rightarrow> string \<Rightarrow> (string \<times> string) option" where
  \<comment> \<open>The text after an opening quote: the decoded string and what follows its
      closing quote.\<close>
  "scanstring acc [] = None"
| "scanstring acc (c # cs) =
     (if c = CHR 0x22 then Some (acc, cs)
      else if c = CHR 0x5C then
        (case cs of
           [] \<Rightarrow> None
         | e # cs' \<Rightarrow>
             (case unescape e of
                None \<Rightarrow> None
              | Some x \<Rightarrow> scanstring (acc @ [x]) cs'))
      else if (of_char c :: nat) < 32 then None
      else scanstring (acc @ [c]) cs)"

definition is_digit :: "char \<Rightarrow> bool" where
  "is_digit c = (48 \<le> (of_char c :: nat) \<and> (of_char c :: nat) \<le> 57)"

definition digit_val :: "char \<Rightarrow> int" where
  "digit_val c = int (of_char c) - 48"

definition digits_val :: "string \<Rightarrow> int" where
  "digits_val ds = foldl (\<lambda>a c. 10 * a + digit_val c) 0 ds"

definition scan_number :: "string \<Rightarrow> (json \<times> string) option" where
  \<comment> \<open>An integer literal; one that continues as a fraction or exponent, or is longer
      than 4300 digits, is not decoded.\<close>
  "scan_number s =
     (let neg = (take 1 s = ''-'');
          body = (if neg then drop 1 s else s);
          ds = (if take 1 body = ''0'' then ''0'' else takeWhile is_digit body);
          rest = drop (length ds) body
      in if ds = [] \<or> 4300 < length ds then None
         else if rest \<noteq> [] \<and> (hd rest = CHR ''.'' \<or> hd rest = CHR ''e'' \<or> hd rest = CHR ''E'')
         then None
         else Some (JInt (if neg then - digits_val ds else digits_val ds), rest))"

fun scan_once :: "nat \<Rightarrow> string \<Rightarrow> (json \<times> string) option"
  and parse_array :: "nat \<Rightarrow> json list \<Rightarrow> string \<Rightarrow> (json \<times> string) option"
  and parse_object :: "nat \<Rightarrow> dict \<Rightarrow> string \<Rightarrow> (json \<times> string) option"
where
  "scan_once 0 s = None"
| "scan_once (Suc n) s =
     (case s of
        [] \<Rightarrow> None
      | c # cs \<Rightarrow>
          if c = CHR 0x22 then
            (case scanstring [] cs of
               None \<Rightarrow> None
             | Some (str, rest) \<Rightarrow> Some (JStr str, rest))
          else if c = CHR ''{'' then
            (case skip_ws cs of
               [] \<Rightarrow> None
             | d # rest \<Rightarrow>
                 if d = CHR ''}'' then Some (JObject [], rest) else parse_object n [] (d # rest))
          else if c = CHR ''['' then
            (case skip_ws cs of
               [] \<Rightarrow> None
             | d # rest \<Rightarrow>
                 if d = CHR '']'' then Some (JArray [], rest) else parse_array n [] (d # rest))
          else if take 4 s = ''null'' then Some (JNull, drop 4 s)
          else if take 4 s = ''true'' then Some (JBool True, drop 4 s)
          else if take 5 s = ''false'' then Some (JBool False, drop 5 s)
          else scan_number s)"
| "parse_array 0 acc s = None"
| "parse_array (Suc n) acc s =
     (case scan_once n s of
        None \<Rightarrow> None
      | Some (v, rest) \<Rightarrow>
          (case skip_ws rest of
             [] \<Rightarrow> None
           | d # rest' \<Rightarrow>
               if d = CHR '']'' then Some (JArray (acc @ [v]), rest')
               else if d = CHR '','' then parse_array n (acc @ [v]) (skip_ws rest')
               else None))"
| "parse_object 0 acc s = None"
| "parse_object (Suc n) acc s =
     (case s of
        [] \<Rightarrow> None
      | q # cs \<Rightarrow>
          if q \<noteq> CHR 0x22 then None
          else
            (case scanstring [] cs of
               None \<Rightarrow> None
             | Some (key, rest) \<Rightarrow>
                 (case skip_ws rest of
                    [] \<Rightarrow> None
                  | colon # rest' \<Rightarrow>
                      if colon \<noteq> CHR '':'' then None
                      else
                        (case scan_once n (skip_ws rest') of
                           None \<Rightarrow> None
                         | Some (v, rest'') \<Rightarrow>
                             (case skip_ws rest'' of
                                [] \<Rightarrow> None
                              | d # r \<Rightarrow>
                                  if d = CHR ''}'' then Some (JObject (dict_set acc key v), r)
                                  else if d = CHR '','' then
                                    parse_object n (dict_set acc key v) (skip_ws r)
                                  else None)))))"

definition json_loads :: "string \<Rightarrow> json option" where
  \<comment> \<open>The first argument of \<open>scan_once\<close> bounds the depth of the calls; a text of length
      \<open>n\<close> never needs more than \<open>2 * n + 2\<close>.\<close>
  "json_loads s =
     (case scan_once (2 * length s + 2) (skip_ws s) of
        None \<Rightarrow> None
      | Some (v, rest) \<Rightarrow> if skip_ws rest = [] then Some v else None)"

section \<open>The result normalizer\<close>

text \<open>
  \<^verbatim>\<open>
  def normalize_keys(item):
      mapping = { "phrase": "phrase", "category": "category", "explanation": "explanation",
                  "bias_score": "bias_score", "recommendation": "recommendation" }
      return {mapping.get(k.lower(), k): v for k, v in item.items()}
  \<close>
  An \<open>item\<close> that is not a dictionary has no \<open>items\<close>, and the call raises
  \<open>AttributeError\<close>.
\<close>

definition mapping :: "(string \<times> string) list" where
  "mapping =
     [(''phrase'', ''phrase''),
      (''category'', ''category''),
      (''explanation'', ''explanation''),
      (''bias_score'', ''bias_score''),
      (''recommendation'', ''recommendation'')]"

definition mapping_get :: "string \<Rightarrow> string \<Rightarrow> string" where
  \<comment> \<open>\<open>mapping.get(k, dflt)\<close>\<close>
  "mapping_get k dflt = (case map_of mapping k of None \<Rightarrow> dflt | Some c \<Rightarrow> c)"

definition rename_keys :: "dict \<Rightarrow> dict" where
  \<comment> \<open>The dictionary comprehension: the pairs are stored in the order of \<open>item\<close>.\<close>
  "rename_keys item =
     foldl (\<lambda>acc kv. dict_set acc (mapping_get (str_lower (fst kv)) (fst kv)) (snd kv)) [] item"

fun normalize_keys :: "json \<Rightarrow> py_error + dict" where
  "normalize_keys (JObject item) = Inr (rename_keys item)"
| "normalize_keys _ = Inl AttributeError"

section \<open>The relevance gate\<close>

text \<open>
  \<open>check_relevance\<close> returns \<open>response["message"]["content"].strip().upper()\<close>; the
  content of the model's response is the argument here. The main script reports the
  document as out of domain when the returned word is \<open>NO\<close> and offers the analysis
  otherwise.
\<close>

definition check_relevance :: "string \<Rightarrow> string" where
  "check_relevance content = str_upper (str_strip content)"

datatype gate = Blocked | Proceed

definition relevance_gate :: "string \<Rightarrow> gate" where
  "relevance_gate content =
     (let relevance = check_relevance content in
      if relevance = ''NO'' then Blocked else Proceed)"

section \<open>The bias analyser\<close>

text \<open>
  \<^verbatim>\<open>
  raw_output = response["message"]["content"].strip()
  try:
      parsed = json.loads(raw_output)
  except:
      start = raw_output.find("[")
      end = raw_output.rfind("]") + 1
      if start != -1 and end != -1:
          try:
              parsed = json.loads(raw_output[start:end])
          except:
              return [{"error": "Parse error", "raw_output": raw_output}]
      else:
          return [{"error": "No JSON detected", "raw_output": raw_output}]
  return [normalize_keys(item) for item in parsed] if isinstance(parsed, list) else parsed
  \<close>
  The function returns a list of dictionaries, or the decoded value itself when that is
  not a list.
\<close>

datatype analysis = Issues "dict list" | Other json

fun is_dict :: "json \<Rightarrow> bool" where
  \<comment> \<open>\<open>isinstance(item, dict)\<close>\<close>
  "is_dict (JObject d) = True"
| "is_dict _ = False"

fun normalize_list :: "json list \<Rightarrow> py_error + dict list" where
  \<comment> \<open>\<open>[normalize_keys(item) for item in parsed]\<close>: the first item that raises ends it.\<close>
  "normalize_list [] = Inr []"
| "normalize_list (item # items) =
     (case normalize_keys item of
        Inl e \<Rightarrow> Inl e
      | Inr d \<Rightarrow>
          (case normalize_list items of
             Inl e \<Rightarrow> Inl e
           | Inr ds \<Rightarrow> Inr (d # ds)))"

definition normalized :: "json \<Rightarrow> py_error + analysis" where
  \<comment> \<open>The last line of \<open>analyze_bias\<close>.\<close>
  "normalized parsed =
     (case parsed of
        JArray items \<Rightarrow>
          (case normalize_list items of
             Inl e \<Rightarrow> Inl e
           | Inr ds \<Rightarrow> Inr (Issues ds))
      | _ \<Rightarrow> Inr (Other parsed))"

definition analyze_bias :: "(string \<Rightarrow> json option) \<Rightarrow> string \<Rightarrow> py_error + analysis" where
  "analyze_bias loads content =
     (let raw_output = str_strip content in
      case loads raw_output of
        Some parsed \<Rightarrow> normalized parsed
      | None \<Rightarrow>
          (let start = str_find raw_output CHR ''['';
               end = str_rfind raw_output CHR '']'' + 1
           in if start \<noteq> - 1 \<and> end \<noteq> - 1 then
                (case loads (py_slice raw_output start end) of
                   Some parsed \<Rightarrow> normalized parsed
                 | None \<Rightarrow>
                     Inr (Issues [[(''error'', JStr ''Parse error''),
                                   (''raw_output'', JStr raw_output)]]))
              else
                Inr (Issues [[(''error'', JStr ''No JSON detected''),
                              (''raw_output'', JStr raw_output)]])))"

section \<open>The aggregator\<close>

text \<open>
  The three lists the main loop fills. A category is any decoded value; a follow-up is the
  text \<open>f"- {recommendation}"\<close>.
\<close>

record totals =
  all_scores :: "int list"
  all_categories :: "json list"
  followups :: "string list"

definition no_totals :: totals where
  "no_totals = \<lparr>all_scores = [], all_categories = [], followups = []\<rparr>"

definition truncate_rat :: "rat \<Rightarrow> int" where
  \<comment> \<open>Rounding towards zero.\<close>
  "truncate_rat r = (if r < 0 then - \<lfloor>- r\<rfloor> else \<lfloor>r\<rfloor>)"

fun more_digits :: "int \<Rightarrow> string \<Rightarrow> int option" where
  \<comment> \<open>The digits after the first; one underscore may stand between two digits.\<close>
  "more_digits acc [] = Some acc"
| "more_digits acc (c # cs) =
     (if is_digit c then more_digits (10 * acc + digit_val c) cs
      else if c = CHR ''_'' then
        (case cs of
           [] \<Rightarrow> None
         | d # ds \<Rightarrow> if is_digit d then more_digits (10 * acc + digit_val d) ds else None)
      else None)"

definition int_space :: "char \<Rightarrow> bool" where
  \<comment> \<open>The white space \<open>int()\<close> accepts around a number: unlike \<open>isspace\<close>, not the
      separators 28 to 31.\<close>
  "int_space c = (let n = (of_char c :: nat) in
     (9 \<le> n \<and> n \<le> 13) \<or> n = 32 \<or> n = 133 \<or> n = 160)"

definition int_of_str :: "string \<Rightarrow> int option" where
  \<comment> \<open>\<open>int(s)\<close> for a string: white space around, an optional sign, decimal digits.
      \<open>None\<close> stands for \<open>ValueError\<close>. The bound that recent interpreters put on the
      number of digits is not modelled.\<close>
  "int_of_str s =
     (let t = rev (dropWhile int_space (rev (dropWhile int_space s)));
          neg = (take 1 t = ''-'');
          body = (if neg \<or> take 1 t = ''+'' then drop 1 t else t)
      in case body of
           [] \<Rightarrow> None
         | c # cs \<Rightarrow>
             if is_digit c then
               (case more_digits (digit_val c) cs of
                  None \<Rightarrow> None
                | Some n \<Rightarrow> Some (if neg then - n else n))
             else None)"

fun py_int :: "json \<Rightarrow> int option" where
  \<comment> \<open>\<open>int(score)\<close>; \<open>None\<close> stands for the exception that the bare \<open>except\<close> of the main
      loop swallows.\<close>
  "py_int JNull = None"
| "py_int (JBool b) = Some (if b then 1 else 0)"
| "py_int (JInt i) = Some i"
| "py_int (JFloat (Finite r)) = Some (truncate_rat r)"
| "py_int (JFloat _) = None"
| "py_int (JStr s) = int_of_str s"
| "py_int (JArray _) = None"
| "py_int (JObject _) = None"

definition py_str :: "(json \<Rightarrow> string) \<Rightarrow> json \<Rightarrow> string" where
  \<comment> \<open>\<open>str(v)\<close>, as the formatted string literal applies it: a string is itself; the
      text of any other value is given by the parameter \<open>fmt\<close>.\<close>
  "py_str fmt v = (case v of JStr s \<Rightarrow> s | _ \<Rightarrow> fmt v)"

text \<open>
  The body of \<open>for item in results\<close>, lines 192 to 209 of the script; what it displays
  is left out.
\<close>

definition process_item :: "(json \<Rightarrow> string) \<Rightarrow> totals \<Rightarrow> dict \<Rightarrow> totals" where
  "process_item fmt t item =
     (if has_key item ''error'' then t
      else
        (let category = dict_get item ''category'' (JStr ''N/A'');
             recommendation = dict_get item ''recommendation'' (JStr ''N/A'');
             score = dict_get item ''bias_score'' (JInt 0);
             t1 = (if category \<noteq> JStr ''N/A''
                   then t\<lparr>all_categories := all_categories t @ [category]\<rparr> else t);
             t2 = (if recommendation \<noteq> JStr ''N/A''
                   then t1\<lparr>followups := followups t1 @ [''- '' @ py_str fmt recommendation]\<rparr>
                   else t1)
         in case py_int score of
              Some n \<Rightarrow> t2\<lparr>all_scores := all_scores t2 @ [n]\<rparr>
            | None \<Rightarrow> t2))"

definition process_results :: "(json \<Rightarrow> string) \<Rightarrow> totals \<Rightarrow> analysis \<Rightarrow> totals" where
  \<comment> \<open>\<open>if isinstance(results, list): for item in results: ...\<close>\<close>
  "process_results fmt t results =
     (case results of
        Issues items \<Rightarrow> foldl (process_item fmt) t items
      | Other v \<Rightarrow> t)"

fun analysis_loop ::
  "(string \<Rightarrow> json option) \<Rightarrow> (json \<Rightarrow> string) \<Rightarrow> totals \<Rightarrow> string list \<Rightarrow> py_error + totals" where
  \<comment> \<open>\<open>for choice in selected\<close>, given the model's response to each selected segment in
      turn. An exception of \<open>analyze_bias\<close> ends the run.\<close>
  "analysis_loop loads fmt t [] = Inr t"
| "analysis_loop loads fmt t (content # rest) =
     (case analyze_bias loads content of
        Inl e \<Rightarrow> Inl e
      | Inr results \<Rightarrow> analysis_loop loads fmt (process_results fmt t results) rest)"




section \<open>Properties of the segmenter\<close>

subsection \<open>Splitting and joining\<close>

lemma split_from_nospace:
  "list_all (\<lambda>c. \<not> isspace c) w \<Longrightarrow> split_from cur (w @ rest) = split_from (cur @ w) rest"
  by (induction w arbitrary: cur) simp_all

lemma split_from_words:
  "w \<in> set (split_from cur s) \<Longrightarrow> list_all (\<lambda>c. \<not> isspace c) cur \<Longrightarrow> is_word w"
proof (induction s arbitrary: cur)
  case Nil
  then show ?case by (auto simp: is_word_def split: if_splits)
next
  case (Cons c cs)
  show ?case
  proof (cases "isspace c")
    case False
    with Cons.prems have "w \<in> set (split_from (cur @ [c]) cs)" by simp
    moreover have "list_all (\<lambda>c. \<not> isspace c) (cur @ [c])" using Cons.prems False by simp
    ultimately show ?thesis by (rule Cons.IH)
  next
    case True
    with Cons.prems have "w \<in> set (split_from [] cs) \<or> (cur \<noteq> [] \<and> w = cur)"
      by (auto split: if_splits)
    then show ?thesis
    proof
      assume "w \<in> set (split_from [] cs)"
      then show ?thesis by (rule Cons.IH) simp
    next
      assume "cur \<noteq> [] \<and> w = cur"
      with Cons.prems show ?thesis by (simp add: is_word_def)
    qed
  qed
qed

lemma split_words: "w \<in> set (str_split text) \<Longrightarrow> is_word w"
  using split_from_words [of w "[]" "text"] by (simp add: str_split_def)

lemma isspace_blank: "isspace CHR '' ''"
  by (simp add: isspace_def)

lemma split_join: "list_all is_word ws \<Longrightarrow> str_split (str_join '' '' ws) = ws"
proof (induction "'' ''" ws rule: str_join.induct)
  case 1
  show ?case by (simp add: str_split_def)
next
  case (2 w)
  then have "split_from [] (w @ []) = split_from ([] @ w) []"
    by (intro split_from_nospace) (simp add: is_word_def)
  with 2 show ?case by (simp add: str_split_def is_word_def)
next
  case (3 w v ws)
  from 3 have w: "w \<noteq> []" "list_all (\<lambda>c. \<not> isspace c) w" by (simp_all add: is_word_def)
  have "split_from [] (w @ ('' '' @ str_join '' '' (v # ws))) = split_from ([] @ w) ('' '' @ str_join '' '' (v # ws))"
    by (rule split_from_nospace) (rule w)
  with w 3 show ?case by (simp add: str_split_def isspace_blank)
qed

subsection \<open>Slices\<close>

lemma set_slice: "set (py_slice xs i j) \<subseteq> set xs"
  unfolding py_slice_def Let_def
  by (meson set_take_subset set_drop_subset subset_trans)

lemma split_join_slice:
  "list_all is_word ws \<Longrightarrow> str_split (str_join '' '' (py_slice ws i j)) = py_slice ws i j"
  using set_slice [of ws i j] by (intro split_join) (auto simp: list_all_iff)

lemma slice_nonneg:
  assumes "0 \<le> i" and "0 \<le> k"
  shows "py_slice xs i (i + k) = take (nat k) (drop (nat i) xs)"
proof -
  let ?n = "int (length xs)"
  consider "i + k \<le> ?n" | "i \<le> ?n" "?n < i + k" | "?n < i" by linarith
  then show ?thesis
  proof cases
    case 1
    with assms show ?thesis by (simp add: py_slice_def Let_def)
  next
    case 2
    with assms have "length (drop (nat i) xs) \<le> nat k" by simp
    with 2 assms show ?thesis by (simp add: py_slice_def Let_def)
  next
    case 3
    with assms show ?thesis by (simp add: py_slice_def Let_def)
  qed
qed

subsection \<open>The loop\<close>

lemma chunk_loop_returns_only_when_advancing:
  assumes "chunk_loop words chunk_size overlap start segments = Some y"
  shows "\<not> (chunk_size \<le> overlap \<and> start < int (length words))"
proof (rule chunk_loop.raw_induct
    [where P = "\<lambda>ws cs ov st segs y. \<not> (cs \<le> ov \<and> st < int (length ws))", OF _ assms])
  fix f :: "string list \<Rightarrow> int \<Rightarrow> int \<Rightarrow> int \<Rightarrow> string list \<Rightarrow> string list option"
  fix ws cs ov st segs y
  assume IH: "\<And>a b c d e y. f a b c d e = Some y \<Longrightarrow> \<not> (b \<le> c \<and> d < int (length a))"
  assume body: "(if st < int (length ws)
      then f ws cs ov (st + (cs - ov)) (segs @ [str_join '' '' (py_slice ws st (st + cs))])
      else Some segs) = Some y"
  show "\<not> (cs \<le> ov \<and> st < int (length ws))"
  proof
    assume a: "cs \<le> ov \<and> st < int (length ws)"
    with body have "f ws cs ov (st + (cs - ov)) (segs @ [str_join '' '' (py_slice ws st (st + cs))]) = Some y"
      by simp
    from IH [OF this] a show False by simp
  qed
qed

lemma chunk_loop_diverges:
  assumes "chunk_size \<le> overlap" and "start < int (length words)"
  shows "chunk_loop words chunk_size overlap start segments = None"
proof (cases "chunk_loop words chunk_size overlap start segments")
  case None
  then show ?thesis .
next
  case (Some y)
  from chunk_loop_returns_only_when_advancing [OF this] assms show ?thesis by simp
qed

lemma chunk_loop_terminates:
  assumes "overlap < chunk_size" and "0 \<le> overlap" and "list_all is_word words"
  shows "0 \<le> start \<Longrightarrow> \<exists>out. chunk_loop words chunk_size overlap start segments = Some (segments @ out)
     \<and> concat (map (\<lambda>t. drop (nat overlap) (str_split t)) out) = drop (nat (start + overlap)) words"
proof (induction "nat (int (length words) - start)" arbitrary: start segments rule: less_induct)
  case less
  show ?case
  proof (cases "start < int (length words)")
    case False
    then show ?thesis using less.prems assms by (subst chunk_loop.simps) simp
  next
    case True
    let ?seg = "str_join '' '' (py_slice words start (start + chunk_size))"
    let ?start' = "start + (chunk_size - overlap)"
    have "nat (int (length words) - ?start') < nat (int (length words) - start)"
      using True assms by simp
    moreover have "0 \<le> ?start'" using less.prems assms by simp
    ultimately obtain out where
      out: "chunk_loop words chunk_size overlap ?start' (segments @ [?seg]) = Some ((segments @ [?seg]) @ out)"
        "concat (map (\<lambda>t. drop (nat overlap) (str_split t)) out) = drop (nat (?start' + overlap)) words"
      using less.hyps by blast
    have seg: "str_split ?seg = take (nat chunk_size) (drop (nat start) words)"
      using split_join_slice [OF assms(3), of start "start + chunk_size"]
        slice_nonneg [of start chunk_size words] assms less.prems by simp
    have "drop (nat overlap) (str_split ?seg) @ drop (nat (?start' + overlap)) words
          = drop (nat (start + overlap)) words"
    proof -
      have "drop (nat overlap) (str_split ?seg)
            = take (nat chunk_size - nat overlap) (drop (nat overlap + nat start) words)"
        by (simp add: seg drop_take)
      moreover have "nat overlap + nat start = nat (start + overlap)"
        using assms less.prems by simp
      moreover have "nat (?start' + overlap) = (nat chunk_size - nat overlap) + nat (start + overlap)"
        using assms less.prems by simp
      ultimately show ?thesis
        by (simp only: drop_drop [symmetric] append_take_drop_id)
    qed
    with out True show ?thesis
      by (subst chunk_loop.simps) (rule exI [of _ "?seg # out"], simp)
  qed
qed

text \<open>
  Claim C1. The specification asks that a call with \<open>chunk_size \<le> overlap\<close> on a text
  with at least one word is rejected with a configuration error. The function has no such
  check: on these inputs the start index never moves forward, the loop condition stays
  true, and the call does not return at all.
\<close>

theorem chunk_text_never_returns:
  assumes "chunk_size \<le> overlap" and "str_split text \<noteq> []"
  shows "chunk_text text chunk_size overlap = None"
  unfolding chunk_text_def using assms by (intro chunk_loop_diverges) simp_all

theorem chunk_text_never_returns_witness:
  "(50::int) \<le> 50 \<and> str_split ''vendor risk'' \<noteq> [] \<and> chunk_text ''vendor risk'' 50 50 = None"
proof -
  have h: "str_split ''vendor risk'' \<noteq> []" by code_simp
  have "(50::int) \<le> 50" by simp
  from chunk_text_never_returns [OF this h] h show ?thesis by simp
qed

text \<open>
  Claim C3. For \<open>chunk_size > overlap \<ge> 0\<close> and \<open>chunk_size > 0\<close> the call returns, and
  the words of its segments, each segment after the first without its first \<open>overlap\<close>
  words, are the words of the text, in order and without a gap.
\<close>

theorem chunk_text_reconstructs:
  assumes "overlap < chunk_size" and "0 \<le> overlap" and "0 < chunk_size"
  shows "\<exists>segments. chunk_text text chunk_size overlap = Some segments
           \<and> reconstruct overlap segments = str_split text"
proof (cases "str_split text = []")
  case True
  then show ?thesis by (simp add: chunk_text_def chunk_loop.simps)
next
  case False
  let ?ws = "str_split text"
  let ?seg = "str_join '' '' (py_slice ?ws 0 (0 + chunk_size))"
  have ws: "list_all is_word ?ws" by (simp add: list_all_iff split_words)
  obtain out where
    out: "chunk_loop ?ws chunk_size overlap (0 + (chunk_size - overlap)) ([] @ [?seg]) = Some (([] @ [?seg]) @ out)"
         "concat (map (\<lambda>t. drop (nat overlap) (str_split t)) out) = drop (nat ((0 + (chunk_size - overlap)) + overlap)) ?ws"
    using chunk_loop_terminates [OF assms(1,2) ws, of "0 + (chunk_size - overlap)" "[] @ [?seg]"] assms
    by auto
  have "str_split ?seg = take (nat chunk_size) ?ws"
    using split_join_slice [OF ws, of 0 "0 + chunk_size"]
      slice_nonneg [of 0 chunk_size ?ws] assms by simp
  with out False show ?thesis
    unfolding chunk_text_def by (subst chunk_loop.simps) simp
qed

theorem chunk_text_reconstructs_witness:
  "(1::int) < 3 \<and> (0::int) \<le> 1 \<and> (0::int) < 3 \<and>
   (\<exists>segments. chunk_text ''a b  c d e'' 3 1 = Some segments
      \<and> reconstruct 1 segments = str_split ''a b  c d e'')"
  using chunk_text_reconstructs [of 1 3 "''a b  c d e''"] by simp

section \<open>Properties of the normalizer\<close>

subsection \<open>Dictionaries\<close>

lemma keys_dict_set: "fst ` set (dict_set d k v) = insert k (fst ` set d)"
  by (induction d k v rule: dict_set.induct) auto

lemma dict_set_new: "k \<notin> fst ` set d \<Longrightarrow> dict_set d k v = d @ [(k, v)]"
  by (induction d k v rule: dict_set.induct) auto

lemma map_fst_dict_set:
  "map fst (dict_set d k v) = (if k \<in> fst ` set d then map fst d else map fst d @ [k])"
  by (induction d k v rule: dict_set.induct) auto

lemma distinct_dict_set: "distinct (map fst d) \<Longrightarrow> distinct (map fst (dict_set d k v))"
  by (simp add: map_fst_dict_set)


lemma map_of_remove_key: "map_of (remove_key k d) k' = (if k' = k then None else map_of d k')"
  by (induction d) (auto simp: remove_key_def)

subsection \<open>Canonical keys\<close>

lemma mapping_get_cases:
  "mapping_get (str_lower k) k =
     (if str_lower k \<in> {''phrase'', ''category'', ''explanation'', ''bias_score'', ''recommendation''}
      then str_lower k else k)"
  by (simp add: mapping_get_def mapping_def)

lemma str_lower_canonical:
  "c \<in> {''phrase'', ''category'', ''explanation'', ''bias_score'', ''recommendation''}
     \<Longrightarrow> str_lower c = c"
  by (auto simp: str_lower_def lower_char_def)

lemma mapping_get_canonical:
  "c \<in> {''phrase'', ''category'', ''explanation'', ''bias_score'', ''recommendation''}
     \<Longrightarrow> mapping_get c d = c"
  by (auto simp: mapping_get_def mapping_def)

lemma mapping_get_idem:
  "mapping_get (str_lower (mapping_get (str_lower k) k)) (mapping_get (str_lower k) k)
     = mapping_get (str_lower k) k"
proof (cases "str_lower k \<in> {''phrase'', ''category'', ''explanation'', ''bias_score'', ''recommendation''}")
  case True
  then have "mapping_get (str_lower k) k = str_lower k"
    by (simp only: mapping_get_cases if_True)
  moreover have "str_lower (str_lower k) = str_lower k"
    using True by (rule str_lower_canonical)
  moreover have "mapping_get (str_lower k) (str_lower k) = str_lower k"
    using True by (rule mapping_get_canonical)
  ultimately show ?thesis by simp
next
  case False
  then have "mapping_get (str_lower k) k = k"
    by (simp only: mapping_get_cases if_False)
  then show ?thesis by simp
qed

subsection \<open>The comprehension\<close>

lemma keys_rename_from:
  "fst ` set (foldl (\<lambda>acc kv. dict_set acc (mapping_get (str_lower (fst kv)) (fst kv)) (snd kv)) acc item)
     = fst ` set acc \<union> (\<lambda>k. mapping_get (str_lower k) k) ` fst ` set item"
  by (induction item arbitrary: acc) (auto simp: keys_dict_set)

lemma distinct_rename_from:
  "distinct (map fst acc) \<Longrightarrow>
     distinct (map fst (foldl (\<lambda>acc kv. dict_set acc (mapping_get (str_lower (fst kv)) (fst kv)) (snd kv)) acc item))"
  by (induction item arbitrary: acc) (simp_all add: distinct_dict_set)

lemma rename_from_distinct:
  "distinct (map (\<lambda>kv. mapping_get (str_lower (fst kv)) (fst kv)) item) \<Longrightarrow>
   (\<lambda>k. mapping_get (str_lower k) k) ` fst ` set item \<inter> fst ` set acc = {} \<Longrightarrow>
   foldl (\<lambda>acc kv. dict_set acc (mapping_get (str_lower (fst kv)) (fst kv)) (snd kv)) acc item
     = acc @ map (\<lambda>kv. (mapping_get (str_lower (fst kv)) (fst kv), snd kv)) item"
proof (induction item arbitrary: acc)
  case Nil
  show ?case by simp
next
  case (Cons kv item)
  let ?g = "\<lambda>k. mapping_get (str_lower k) k"
  have new: "?g (fst kv) \<notin> fst ` set acc" using Cons.prems(2) by auto
  then have step: "dict_set acc (?g (fst kv)) (snd kv) = acc @ [(?g (fst kv), snd kv)]"
    by (rule dict_set_new)
  have "distinct (map (\<lambda>kv. ?g (fst kv)) item)" using Cons.prems(1) by simp
  moreover have "?g ` fst ` set item \<inter> fst ` set (acc @ [(?g (fst kv), snd kv)]) = {}"
    using Cons.prems by auto
  ultimately have
    "foldl (\<lambda>acc kv. dict_set acc (?g (fst kv)) (snd kv)) (acc @ [(?g (fst kv), snd kv)]) item
       = (acc @ [(?g (fst kv), snd kv)]) @ map (\<lambda>kv. (?g (fst kv), snd kv)) item"
    by (rule Cons.IH)
  with step show ?case by simp
qed

lemma keys_rename_keys:
  "fst ` set (rename_keys item) = (\<lambda>k. mapping_get (str_lower k) k) ` fst ` set item"
  unfolding rename_keys_def by (simp add: keys_rename_from)

lemma distinct_rename_keys: "distinct (map fst (rename_keys item))"
  unfolding rename_keys_def by (rule distinct_rename_from) simp

lemma rename_keys_distinct:
  "distinct (map (\<lambda>kv. mapping_get (str_lower (fst kv)) (fst kv)) item) \<Longrightarrow>
     rename_keys item = map (\<lambda>kv. (mapping_get (str_lower (fst kv)) (fst kv), snd kv)) item"
  unfolding rename_keys_def using rename_from_distinct [of item "[]"] by simp

lemma rename_keys_idem: "rename_keys (rename_keys item) = rename_keys item"
proof -
  let ?g = "\<lambda>k. mapping_get (str_lower k) k"
  let ?d = "rename_keys item"
  have fixed: "?g (fst kv) = fst kv" if "kv \<in> set ?d" for kv
  proof -
    from that have "fst kv \<in> ?g ` fst ` set item"
      using keys_rename_keys [of item] by force
    then show ?thesis by (auto simp: mapping_get_idem)
  qed
  then have same: "map (\<lambda>kv. (?g (fst kv), snd kv)) ?d = ?d"
    by (simp add: map_idI)
  have "map (\<lambda>kv. ?g (fst kv)) ?d = map fst ?d"
    by (rule map_cong) (simp_all add: fixed)
  then have "distinct (map (\<lambda>kv. ?g (fst kv)) ?d)"
    by (simp only: distinct_rename_keys)
  from rename_keys_distinct [OF this] same show ?thesis by simp
qed

text \<open>
  Claim C8. \<open>normalize_keys\<close> is idempotent on every issue record, whatever its keys:
  the second application returns the record of the first. A key whose lower-case form is
  one of the five field names becomes that name and every other key is kept; where the
  renamed keys are distinct, the record keeps its values and their order.
\<close>

theorem normalize_keys_idempotent:
  "normalize_keys (JObject item) = Inr (rename_keys item)
   \<and> normalize_keys (JObject (rename_keys item)) = Inr (rename_keys item)
   \<and> fst ` set (rename_keys item) =
       (\<lambda>k. if str_lower k \<in> {''phrase'', ''category'', ''explanation'', ''bias_score'',
                                  ''recommendation''}
            then str_lower k else k) ` fst ` set item
   \<and> (distinct (map (\<lambda>kv. mapping_get (str_lower (fst kv)) (fst kv)) item) \<longrightarrow>
        rename_keys item = map (\<lambda>kv. (mapping_get (str_lower (fst kv)) (fst kv), snd kv)) item)"
proof (intro conjI impI)
  show "normalize_keys (JObject item) = Inr (rename_keys item)" by simp
  show "normalize_keys (JObject (rename_keys item)) = Inr (rename_keys item)"
    by (simp add: rename_keys_idem)
  show "fst ` set (rename_keys item) =
       (\<lambda>k. if str_lower k \<in> {''phrase'', ''category'', ''explanation'', ''bias_score'',
                                  ''recommendation''}
            then str_lower k else k) ` fst ` set item"
    by (simp only: keys_rename_keys mapping_get_cases)
  show "rename_keys item = map (\<lambda>kv. (mapping_get (str_lower (fst kv)) (fst kv), snd kv)) item"
    if "distinct (map (\<lambda>kv. mapping_get (str_lower (fst kv)) (fst kv)) item)"
    using that by (rule rename_keys_distinct)
qed

theorem normalize_keys_idempotent_witness:
  "normalize_keys (JObject [(''Phrase'', JStr ''x''), (''Vendor'', JInt 3), (''BIAS_SCORE'', JInt 70)])
     = Inr [(''phrase'', JStr ''x''), (''Vendor'', JInt 3), (''bias_score'', JInt 70)]
   \<and> normalize_keys (JObject [(''phrase'', JStr ''x''), (''Vendor'', JInt 3), (''bias_score'', JInt 70)])
     = Inr [(''phrase'', JStr ''x''), (''Vendor'', JInt 3), (''bias_score'', JInt 70)]
   \<and> distinct (map (\<lambda>kv. mapping_get (str_lower (fst kv)) (fst kv))
        [(''Phrase'', JStr ''x''), (''Vendor'', JInt 3), (''BIAS_SCORE'', JInt 70)])
   \<and> map (\<lambda>kv. (mapping_get (str_lower (fst kv)) (fst kv), snd kv))
        [(''Phrase'', JStr ''x''), (''Vendor'', JInt 3), (''BIAS_SCORE'', JInt 70)]
     = [(''phrase'', JStr ''x''), (''Vendor'', JInt 3), (''bias_score'', JInt 70)]"
proof -
  have r: "rename_keys [(''Phrase'', JStr ''x''), (''Vendor'', JInt 3), (''BIAS_SCORE'', JInt 70)]
      = [(''phrase'', JStr ''x''), (''Vendor'', JInt 3), (''bias_score'', JInt 70)]"
    by code_simp
  have d: "distinct (map (\<lambda>kv. mapping_get (str_lower (fst kv)) (fst kv))
        [(''Phrase'', JStr ''x''), (''Vendor'', JInt 3), (''BIAS_SCORE'', JInt 70)])"
    by code_simp
  note c8 = normalize_keys_idempotent
    [of "[(''Phrase'', JStr ''x''), (''Vendor'', JInt 3), (''BIAS_SCORE'', JInt 70)]",
     unfolded r]
  from c8 d have "[(''phrase'', JStr ''x''), (''Vendor'', JInt 3), (''bias_score'', JInt 70)]
      = map (\<lambda>kv. (mapping_get (str_lower (fst kv)) (fst kv), snd kv))
          [(''Phrase'', JStr ''x''), (''Vendor'', JInt 3), (''BIAS_SCORE'', JInt 70)]"
    by blast
  with c8 d show ?thesis by simp
qed

section \<open>Properties of the relevance gate\<close>

lemma upper_char_nonempty: "upper_char c \<noteq> []"
  by (simp add: upper_char_def Let_def)

lemma upper_char_single:
  assumes "upper_char c = [x]" and "x = CHR ''N'' \<or> x = CHR ''O''"
  shows "c = x \<or> lower_char x = c"
proof -
  let ?n = "of_char c :: nat"
  have c: "char_of ?n = c" by simp
  have lt: "?n < 256" by simp
  consider "(97 \<le> ?n \<and> ?n \<le> 122) \<or> (224 \<le> ?n \<and> ?n \<le> 246) \<or> (248 \<le> ?n \<and> ?n \<le> 254)"
    | "\<not> ((97 \<le> ?n \<and> ?n \<le> 122) \<or> (224 \<le> ?n \<and> ?n \<le> 246) \<or> (248 \<le> ?n \<and> ?n \<le> 254))" "?n = 223"
    | "\<not> ((97 \<le> ?n \<and> ?n \<le> 122) \<or> (224 \<le> ?n \<and> ?n \<le> 246) \<or> (248 \<le> ?n \<and> ?n \<le> 254))" "?n \<noteq> 223"
    by blast
  then show ?thesis
  proof cases
    case 1
    with assms(1) have "char_of (?n - 32) = x" by (simp add: upper_char_def Let_def)
    then have "(of_char x :: nat) = (?n - 32) mod 256" by (metis of_char_of)
    moreover have "?n - 32 < 256" using lt by linarith
    ultimately have x: "(of_char x :: nat) = ?n - 32" by (simp only: mod_less)
    with 1 have "?n = of_char x + 32" by linarith
    then have "c = char_of (of_char x + 32 :: nat)" using c by simp
    moreover have "lower_char x = char_of (of_char x + 32 :: nat)"
      using assms(2) by (auto simp: lower_char_def)
    ultimately show ?thesis by simp
  next
    case 2
    with assms(1) show ?thesis by (simp add: upper_char_def Let_def)
  next
    case 3
    with assms(1) show ?thesis by (simp add: upper_char_def Let_def)
  qed
qed

lemma str_upper_NO:
  "str_upper s = ''NO'' \<longleftrightarrow> s \<in> {''NO'', ''No'', ''nO'', ''no''}"
proof
  assume "s \<in> {''NO'', ''No'', ''nO'', ''no''}"
  moreover have "str_upper ''NO'' = ''NO''" "str_upper ''No'' = ''NO''"
    "str_upper ''nO'' = ''NO''" "str_upper ''no'' = ''NO''"
    by code_simp+
  ultimately show "str_upper s = ''NO''" by auto
next
  assume u: "str_upper s = ''NO''"
  have len: "length (upper_char c) \<ge> 1" for c
    using upper_char_nonempty [of c] by (cases "upper_char c") simp_all
  show "s \<in> {''NO'', ''No'', ''nO'', ''no''}"
  proof (cases s)
    case Nil
    with u show ?thesis by (simp add: str_upper_def)
  next
    case (Cons a s')
    show ?thesis
    proof (cases s')
      case Nil
      with Cons u have ua: "upper_char a = ''NO''" by (simp add: str_upper_def)
      then show ?thesis by (simp add: upper_char_def Let_def split: if_splits)
    next
      case (Cons b s'')
      with \<open>s = a # s'\<close> u have e: "upper_char a @ upper_char b @ str_upper s'' = ''NO''"
        by (simp add: str_upper_def)
      then have "length (upper_char a) + length (upper_char b) + length (str_upper s'') = 2"
        by (metis length_append add.assoc length_Cons list.size(3) numeral_2_eq_2)
      with len [of a] len [of b] have "length (upper_char a) = 1 \<and> length (upper_char b) = 1
        \<and> length (str_upper s'') = 0" by linarith
      then have l: "length (upper_char a) = 1" "length (upper_char b) = 1"
        "str_upper s'' = []" by simp_all
      then obtain x y where xy: "upper_char a = [x]" "upper_char b = [y]"
        by (metis One_nat_def length_0_conv length_Suc_conv)
      with e l have "x = CHR ''N''" "y = CHR ''O''" by simp_all
      moreover have "lower_char CHR ''N'' = CHR ''n''" "lower_char CHR ''O'' = CHR ''o''"
        by code_simp+
      ultimately have "a = CHR ''N'' \<or> a = CHR ''n''" "b = CHR ''O'' \<or> b = CHR ''o''"
        using xy upper_char_single [of a x] upper_char_single [of b y] by auto
      moreover have "s'' = []"
      proof (cases s'')
        case Nil
        then show ?thesis .
      next
        case (Cons c s''')
        with l(3) upper_char_nonempty [of c] show ?thesis by (simp add: str_upper_def)
      qed
      ultimately show ?thesis using \<open>s = a # s'\<close> \<open>s' = b # s''\<close> by auto
    qed
  qed
qed

text \<open>
  Claim C6. The gate blocks the analysis exactly when the response, stripped of the white
  space around it and put in upper case, is \<open>NO\<close>, that is when the stripped response is
  one of the four spellings of that word; every other response lets the analysis proceed.
\<close>

theorem relevance_gate_blocks_iff:
  "(relevance_gate content = Blocked \<longleftrightarrow> str_upper (str_strip content) = ''NO'')
   \<and> (relevance_gate content = Blocked \<longleftrightarrow> str_strip content \<in> {''NO'', ''No'', ''nO'', ''no''})
   \<and> (relevance_gate content = Proceed \<longleftrightarrow> str_upper (str_strip content) \<noteq> ''NO'')"
  unfolding str_upper_NO [symmetric]
  by (simp add: relevance_gate_def check_relevance_def)

theorem relevance_gate_blocks_iff_witness:
  "relevance_gate ''  no '' = Blocked \<and> relevance_gate ''No.'' = Proceed
   \<and> relevance_gate ''I am not sure'' = Proceed \<and> relevance_gate '''' = Proceed"
proof -
  have "str_strip ''  no '' = ''no''" "str_strip ''No.'' = ''No.''"
    "str_strip ''I am not sure'' = ''I am not sure''" "str_strip '''' = ''''"
    by code_simp+
  then show ?thesis
    using relevance_gate_blocks_iff [of "''  no ''"] relevance_gate_blocks_iff [of "''No.''"]
      relevance_gate_blocks_iff [of "''I am not sure''"] relevance_gate_blocks_iff [of "''''"]
    by (cases "relevance_gate ''No.''"; cases "relevance_gate ''I am not sure''";
        cases "relevance_gate ''''") simp_all
qed

section \<open>Properties of the bias analyser\<close>

subsection \<open>Searching and trimming\<close>

lemma set_str_strip: "set (str_strip s) \<subseteq> set s"
proof -
  have "set (dropWhile isspace (rev (dropWhile isspace s))) \<subseteq> set (rev (dropWhile isspace s))"
    by (meson set_dropWhileD subsetI)
  moreover have "set (dropWhile isspace s) \<subseteq> set s"
    by (meson set_dropWhileD subsetI)
  ultimately show ?thesis by (auto simp: str_strip_def)
qed

lemma str_find_absent: "c \<notin> set s \<Longrightarrow> str_find s c = - 1"
  by (induction s) auto




subsection \<open>Normalizing a decoded list\<close>


lemma normalize_keys_raises: "\<not> is_dict item \<Longrightarrow> normalize_keys item = Inl AttributeError"
  by (cases item) simp_all

lemma normalize_list_raises:
  "\<exists>item \<in> set items. \<not> is_dict item \<Longrightarrow> normalize_list items = Inl AttributeError"
proof (induction items)
  case Nil
  then show ?case by simp
next
  case (Cons item items)
  show ?case
  proof (cases "is_dict item")
    case False
    then show ?thesis by (simp add: normalize_keys_raises)
  next
    case True
    then obtain d where "item = JObject d" by (cases item) simp_all
    moreover from True Cons.prems have "\<exists>item \<in> set items. \<not> is_dict item" by auto
    then have "normalize_list items = Inl AttributeError" by (rule Cons.IH)
    ultimately show ?thesis by simp
  qed
qed

lemma process_error_record:
  "process_results fmt t (Issues [[(''error'', JStr kind), (''raw_output'', JStr raw)]]) = t"
  by (simp add: process_results_def process_item_def has_key_def)

lemma analyze_bias_unparseable:
  assumes "loads (str_strip content) = None"
    and "loads (py_slice (str_strip content) (str_find (str_strip content) CHR ''['')
                 (str_rfind (str_strip content) CHR '']'' + 1)) = None"
  shows "\<exists>kind. analyze_bias loads content =
           Inr (Issues [[(''error'', JStr kind), (''raw_output'', JStr (str_strip content))]])"
  using assms by (simp add: analyze_bias_def Let_def)

text \<open>
  Claim C2. The specification says that the parsing and normalizing stage of
  \<open>analyze_bias\<close> returns a value for every response and never raises. A response that
  decodes to a list with an element that is not an object is a response on which it
  raises: \<open>normalize_keys\<close> asks that element for its \<open>items\<close>.
\<close>

theorem analyze_bias_raises_on_non_dict_item:
  assumes "loads (str_strip content) = Some (JArray items)"
    and "\<exists>item \<in> set items. \<not> is_dict item"
  shows "analyze_bias loads content = Inl AttributeError"
  using assms(1) normalize_list_raises [OF assms(2)]
  by (simp add: analyze_bias_def normalized_def)

theorem analyze_bias_raises_on_non_dict_item_witness:
  "json_loads (str_strip ''[1]'') = Some (JArray [JInt 1])
   \<and> (\<exists>item \<in> set [JInt 1]. \<not> is_dict item)
   \<and> analyze_bias json_loads ''[1]'' = Inl AttributeError"
proof -
  have h1: "json_loads (str_strip ''[1]'') = Some (JArray [JInt 1])" by code_simp
  have h2: "\<exists>item \<in> set [JInt 1]. \<not> is_dict item" by simp
  from analyze_bias_raises_on_non_dict_item
    [where loads = json_loads and content = "''[1]''" and items = "[JInt 1]", OF h1 h2] h1 h2
  show ?thesis by simp
qed

text \<open>
  Claim C4. A response without a bracket that does not decode gives exactly one error
  record, which carries the trimmed response text, and the loop over the selected
  segments goes on with the next response: the record changes none of the totals.
\<close>

theorem analyze_bias_no_json_detected:
  assumes "CHR ''['' \<notin> set content" and "CHR '']'' \<notin> set content"
    and "loads (str_strip content) = None"
  shows "analyze_bias loads content =
           Inr (Issues [[(''error'', JStr ''No JSON detected''),
                         (''raw_output'', JStr (str_strip content))]])
         \<and> analysis_loop loads fmt t (content # rest) = analysis_loop loads fmt t rest"
proof -
  from assms(1) have "CHR ''['' \<notin> set (str_strip content)"
    using set_str_strip [of content] by auto
  then have "str_find (str_strip content) CHR ''['' = - 1" by (rule str_find_absent)
  with assms(3) have a: "analyze_bias loads content =
      Inr (Issues [[(''error'', JStr ''No JSON detected''),
                    (''raw_output'', JStr (str_strip content))]])"
    by (simp add: analyze_bias_def Let_def)
  then show ?thesis by (simp add: process_error_record)
qed

theorem analyze_bias_no_json_detected_witness:
  "CHR ''['' \<notin> set ''Sorry, I can't help.'' \<and> CHR '']'' \<notin> set ''Sorry, I can't help.''
   \<and> json_loads (str_strip ''Sorry, I can't help.'') = None
   \<and> analyze_bias json_loads ''Sorry, I can't help.'' =
       Inr (Issues [[(''error'', JStr ''No JSON detected''),
                     (''raw_output'', JStr ''Sorry, I can't help.'')]])
   \<and> analysis_loop json_loads (\<lambda>v. []) no_totals [''Sorry, I can't help.'', ''[{}]'']
       = Inr \<lparr>all_scores = [0], all_categories = [], followups = []\<rparr>"
proof -
  have h1: "CHR ''['' \<notin> set ''Sorry, I can't help.''" by simp
  have h2: "CHR '']'' \<notin> set ''Sorry, I can't help.''" by simp
  have h3: "json_loads (str_strip ''Sorry, I can't help.'') = None" by code_simp
  have s: "str_strip ''Sorry, I can't help.'' = ''Sorry, I can't help.''" by code_simp
  have r: "analysis_loop json_loads (\<lambda>v. []) no_totals [''[{}]'']
       = Inr \<lparr>all_scores = [0], all_categories = [], followups = []\<rparr>" by code_simp
  note c4 = analyze_bias_no_json_detected
    [where loads = json_loads and content = "''Sorry, I can't help.''" and fmt = "\<lambda>v. []"
       and t = no_totals and rest = "[''[{}]'']", OF h1 h2 h3, unfolded s r]
  from c4 h1 h2 h3 show ?thesis by blast
qed




section \<open>Properties of the aggregator\<close>

lemma process_item_error: "has_key item ''error'' \<Longrightarrow> process_item fmt t item = t"
  by (simp add: process_item_def)





subsection \<open>A record without a score\<close>




subsection \<open>The value N/A\<close>

lemma dict_get_remove_key_other:
  "k' \<noteq> k \<Longrightarrow> dict_get (remove_key k item) k' d = dict_get item k' d"
  by (simp add: dict_get_def map_of_remove_key)

lemma dict_get_remove_key_same: "dict_get (remove_key k item) k d = d"
  by (simp add: dict_get_def map_of_remove_key)

lemma has_key_remove_key_other: "k' \<noteq> k \<Longrightarrow> has_key (remove_key k item) k' = has_key item k'"
  by (simp add: has_key_def map_of_remove_key)

text \<open>
  Claim C10. A record whose category is the string \<open>N/A\<close> is processed exactly as the
  same record without a category, and adds nothing to the category tally; a record whose
  recommendation is the string \<open>N/A\<close> is processed exactly as the same record without a
  recommendation, and adds nothing to the follow-ups.
\<close>

theorem na_field_is_absent_field:
  "(map_of item ''category'' = Some (JStr ''N/A'') \<longrightarrow>
      process_item fmt t item = process_item fmt t (remove_key ''category'' item)
      \<and> all_categories (process_item fmt t item) = all_categories t)
   \<and> (map_of item ''recommendation'' = Some (JStr ''N/A'') \<longrightarrow>
      process_item fmt t item = process_item fmt t (remove_key ''recommendation'' item)
      \<and> followups (process_item fmt t item) = followups t)"
proof (intro conjI impI)
  assume c: "map_of item ''category'' = Some (JStr ''N/A'')"
  then have g: "dict_get item ''category'' (JStr ''N/A'') = JStr ''N/A''"
    by (simp add: dict_get_def)
  show "process_item fmt t item = process_item fmt t (remove_key ''category'' item)"
    unfolding process_item_def
    by (simp only: g dict_get_remove_key_same dict_get_remove_key_other has_key_remove_key_other
        list.inject char.inject simp_thms)
  show "all_categories (process_item fmt t item) = all_categories t"
    by (simp add: process_item_def g Let_def split: option.splits)
next
  assume r: "map_of item ''recommendation'' = Some (JStr ''N/A'')"
  then have g: "dict_get item ''recommendation'' (JStr ''N/A'') = JStr ''N/A''"
    by (simp add: dict_get_def)
  show "process_item fmt t item = process_item fmt t (remove_key ''recommendation'' item)"
    unfolding process_item_def
    by (simp only: g dict_get_remove_key_same dict_get_remove_key_other has_key_remove_key_other
        list.inject char.inject simp_thms)
  show "followups (process_item fmt t item) = followups t"
    by (simp add: process_item_def g Let_def split: option.splits)
qed

theorem na_field_is_absent_field_witness:
  "map_of [(''phrase'', JStr ''p''), (''category'', JStr ''N/A''), (''recommendation'', JStr ''N/A''),
           (''bias_score'', JInt 30)] ''category'' = Some (JStr ''N/A'')
   \<and> map_of [(''phrase'', JStr ''p''), (''category'', JStr ''N/A''), (''recommendation'', JStr ''N/A''),
           (''bias_score'', JInt 30)] ''recommendation'' = Some (JStr ''N/A'')
   \<and> process_item (\<lambda>v. []) no_totals
        [(''phrase'', JStr ''p''), (''category'', JStr ''N/A''), (''recommendation'', JStr ''N/A''),
         (''bias_score'', JInt 30)]
      = \<lparr>all_scores = [30], all_categories = [], followups = []\<rparr>
   \<and> process_item (\<lambda>v. []) no_totals
        (remove_key ''category'' [(''phrase'', JStr ''p''), (''category'', JStr ''N/A''),
          (''recommendation'', JStr ''N/A''), (''bias_score'', JInt 30)])
      = \<lparr>all_scores = [30], all_categories = [], followups = []\<rparr>
   \<and> process_item (\<lambda>v. []) no_totals
        (remove_key ''recommendation'' [(''phrase'', JStr ''p''), (''category'', JStr ''N/A''),
          (''recommendation'', JStr ''N/A''), (''bias_score'', JInt 30)])
      = \<lparr>all_scores = [30], all_categories = [], followups = []\<rparr>"
proof -
  let ?item = "[(''phrase'', JStr ''p''), (''category'', JStr ''N/A''),
                (''recommendation'', JStr ''N/A''), (''bias_score'', JInt 30)]"
  have h1: "map_of ?item ''category'' = Some (JStr ''N/A'')" by simp
  have h2: "map_of ?item ''recommendation'' = Some (JStr ''N/A'')" by simp
  have p: "process_item (\<lambda>v. []) no_totals ?item
      = \<lparr>all_scores = [30], all_categories = [], followups = []\<rparr>"
    by code_simp
  note c10 = na_field_is_absent_field [of ?item "\<lambda>v. []" no_totals]
  from c10 h1 have "process_item (\<lambda>v. []) no_totals ?item
      = process_item (\<lambda>v. []) no_totals (remove_key ''category'' ?item)" by blast
  then have e1: "process_item (\<lambda>v. []) no_totals (remove_key ''category'' ?item)
      = \<lparr>all_scores = [30], all_categories = [], followups = []\<rparr>"
    unfolding p by (rule sym)
  from c10 h2 have "process_item (\<lambda>v. []) no_totals ?item
      = process_item (\<lambda>v. []) no_totals (remove_key ''recommendation'' ?item)" by blast
  then have e2: "process_item (\<lambda>v. []) no_totals (remove_key ''recommendation'' ?item)
      = \<lparr>all_scores = [30], all_categories = [], followups = []\<rparr>"
    unfolding p by (rule sym)
  from h1 h2 p e1 e2 show ?thesis by blast
qed

end
